theory Spec2Isabelle
  imports Main "HOL-Library.Sublist" "HOL-Library.Word"
begin

section \<open>JSON values and the string primitives the viewer uses\<close>

text \<open>
  A JavaScript string is a sequence of UTF-16 code units. \<open>lit\<close> gives the code units of
  a literal written in ASCII.
\<close>

type_synonym code_unit = "16 word"

type_synonym jsstring = "code_unit list"

definition lit :: "string \<Rightarrow> jsstring" where
  "lit s = map of_char s"

text \<open>
  The value that \<^verbatim>\<open>JSON.parse\<close> hands to the viewer. An object is the list of its
  entries in the order of \<^verbatim>\<open>Object.entries\<close>. Numbers are the integers (the model
  leaves fractions and exponents out); \<^verbatim>\<open>null\<close> is \<open>JNull\<close>, which is also the value
  of the \<^verbatim>\<open>jsonData\<close> state while no document is loaded.
\<close>

datatype json =
    JNull
  | JBool bool
  | JNumber int
  | JString jsstring
  | JArray "json list"
  | JObject "(jsstring \<times> json) list"

text \<open>\<^verbatim>\<open>toLowerCase\<close> is modelled on the letters A to Z; no property below depends on more.\<close>

definition lower_char :: "code_unit \<Rightarrow> code_unit" where
  "lower_char c = (if 0x41 \<le> c \<and> c \<le> 0x5A then c + 0x20 else c)"

definition toLowerCase :: "jsstring \<Rightarrow> jsstring" where
  "toLowerCase s = map lower_char s"

text \<open>
  \<^verbatim>\<open>trim\<close> removes white space and line terminators at both ends. These are the code units
  of ECMAScript's \<^verbatim>\<open>WhiteSpace\<close> and \<^verbatim>\<open>LineTerminator\<close>: tab, LF, VT, FF, CR, space, the
  no-break space U+00A0, U+1680, U+2000 to U+200A, the line and paragraph separators
  U+2028 and U+2029, U+202F, U+205F, U+3000 and the byte order mark U+FEFF.
\<close>

definition is_whitespace :: "code_unit \<Rightarrow> bool" where
  "is_whitespace c =
     (c \<in> set [0x0009, 0x000A, 0x000B, 0x000C, 0x000D, 0x0020, 0x00A0, 0x1680,
               0x2000, 0x2001, 0x2002, 0x2003, 0x2004, 0x2005, 0x2006, 0x2007, 0x2008,
               0x2009, 0x200A, 0x2028, 0x2029, 0x202F, 0x205F, 0x3000, 0xFEFF])"

definition trim :: "jsstring \<Rightarrow> jsstring" where
  "trim s = rev (dropWhile is_whitespace (rev (dropWhile is_whitespace s)))"

text \<open>\<^verbatim>\<open>s.includes(sub)\<close>: \<open>sub\<close> occurs in \<open>s\<close> as a contiguous block.\<close>

fun includes_str :: "jsstring \<Rightarrow> jsstring \<Rightarrow> bool" where
  "includes_str [] sub = (sub = [])"
| "includes_str (c # cs) sub = (prefix sub (c # cs) \<or> includes_str cs sub)"

definition startsWith :: "jsstring \<Rightarrow> jsstring \<Rightarrow> bool" where
  "startsWith s pre = prefix pre s"

text \<open>
  \<^verbatim>\<open>s.endsWith(suf)\<close>.
\<close>

definition endsWith :: "jsstring \<Rightarrow> jsstring \<Rightarrow> bool" where
  "endsWith s suf = suffix suf s"

text \<open>\<^verbatim>\<open>parts.join(sep)\<close>.\<close>

fun join :: "jsstring \<Rightarrow> jsstring list \<Rightarrow> jsstring" where
  "join sep [] = []"
| "join sep [s] = s"
| "join sep (s # t # ss) = s @ sep @ join sep (t # ss)"

text \<open>
  \<^verbatim>\<open>content.split(sep)\<close> for a separator of one code unit: the pieces between the
  separators, never the empty list. \<open>split_from\<close> carries the piece read so far.
\<close>

fun split_from :: "code_unit \<Rightarrow> jsstring \<Rightarrow> jsstring \<Rightarrow> jsstring list" where
  "split_from sep piece [] = [piece]"
| "split_from sep piece (c # cs) =
     (if c = sep then piece # split_from sep [] cs else split_from sep (piece @ [c]) cs)"

definition split :: "code_unit \<Rightarrow> jsstring \<Rightarrow> jsstring list" where
  "split sep s = split_from sep [] s"

text \<open>The decimal numeral of a natural number, as a template literal prints an index.\<close>

fun digits :: "nat \<Rightarrow> jsstring" where
  "digits n =
     (if n < 10 then [lit ''0123456789'' ! n]
      else digits (n div 10) @ [lit ''0123456789'' ! (n mod 10)])"

definition String_int :: "int \<Rightarrow> jsstring" where
  "String_int i = (if i < 0 then 0x2D # digits (nat (- i)) else digits (nat i))"

text \<open>
  \<^verbatim>\<open>String(value)\<close>. The search applies it to booleans, numbers and strings only; an
  array prints its elements joined by commas, \<^verbatim>\<open>null\<close> elements as nothing.
\<close>

fun String :: "json \<Rightarrow> jsstring" where
  "String JNull = lit ''null''"
| "String (JBool b) = (if b then (lit ''true'') else (lit ''false''))"
| "String (JNumber n) = String_int n"
| "String (JString s) = s"
| "String (JArray xs) = join (lit '','') (map (\<lambda>x. if x = JNull then [] else String x) xs)"
| "String (JObject kvs) = lit ''[object Object]''"

text \<open>\<^verbatim>\<open>!data\<close>: the values JavaScript takes for false.\<close>

fun falsy :: "json \<Rightarrow> bool" where
  "falsy JNull = True"
| "falsy (JBool b) = (\<not> b)"
| "falsy (JNumber n) = (n = 0)"
| "falsy (JString s) = (s = [])"
| "falsy (JArray xs) = False"
| "falsy (JObject kvs) = False"

fun isObject :: "json \<Rightarrow> bool" where
  "isObject (JObject kvs) = True"
| "isObject _ = False"

fun isArray :: "json \<Rightarrow> bool" where
  "isArray (JArray xs) = True"
| "isArray _ = False"

definition isPrimitive :: "json \<Rightarrow> bool" where
  "isPrimitive data = (\<not> isObject data \<and> \<not> isArray data)"

text \<open>\<^verbatim>\<open>data.length\<close>, which the viewer reads only where \<^verbatim>\<open>isArray\<close> holds.\<close>

fun array_length :: "json \<Rightarrow> nat" where
  "array_length (JArray xs) = length xs"
| "array_length _ = 0"

text \<open>
  The number the header of a container shows: \<^verbatim>\<open>data.length\<close> of an array,
  \<^verbatim>\<open>Object.keys(data).length\<close> of an object.
\<close>

fun childCount :: "json \<Rightarrow> nat" where
  "childCount (JArray xs) = length xs"
| "childCount (JObject kvs) = length kvs"
| "childCount _ = 0"

text \<open>The path segment of an array element: \<^verbatim>\<open>`[${index}]`\<close>.\<close>

definition index_segment :: "nat \<Rightarrow> jsstring" where
  "index_segment index = lit ''['' @ digits index @ lit '']''"

section \<open>The search engine: \<^verbatim>\<open>searchInData\<close>\<close>

datatype match_type = Key | Value

text \<open>
  A search result \<^verbatim>\<open>{type, path, key, value, pathString}\<close>; a value match has no
  \<^verbatim>\<open>key\<close>.
\<close>

record search_result =
  rtype :: match_type
  rpath :: "jsstring list"
  rkey :: "jsstring option"
  rvalue :: json
  rpathString :: jsstring

definition MAX_RESULTS :: nat where
  "MAX_RESULTS = 1000"

definition MAX_DEPTH :: nat where
  "MAX_DEPTH = 50"

lemma size_list_take_less:
  "size_list f (take n xs) < Suc (size_list f xs)"
  by (induction xs arbitrary: n) (auto simp: take_Cons')

text \<open>
  The inner function \<^verbatim>\<open>search\<close> pushes onto the array \<^verbatim>\<open>results\<close>; here it takes the
  array and returns it. \<open>search_items\<close> and \<open>search_entries\<close> are the two
  \<^verbatim>\<open>forEach\<close> loops over \<^verbatim>\<open>slice(0, 1000)\<close>: a \<^verbatim>\<open>return\<close> inside the callback ends
  that iteration only, so the loop still runs over the remaining entries. Nothing in
  the \<^verbatim>\<open>try\<close> block can throw on a JSON value, so the \<^verbatim>\<open>catch\<close> has no branch.
\<close>

function search ::
    "jsstring \<Rightarrow> json \<Rightarrow> jsstring list \<Rightarrow> nat \<Rightarrow> search_result list \<Rightarrow> search_result list"
  and search_items ::
    "jsstring \<Rightarrow> json list \<Rightarrow> nat \<Rightarrow> jsstring list \<Rightarrow> nat \<Rightarrow> search_result list
       \<Rightarrow> search_result list"
  and search_entries ::
    "jsstring \<Rightarrow> (jsstring \<times> json) list \<Rightarrow> jsstring list \<Rightarrow> nat \<Rightarrow> search_result list
       \<Rightarrow> search_result list"
where
  "search lowerQuery obj currentPath depth results =
     (if length results \<ge> MAX_RESULTS \<or> depth > MAX_DEPTH then results
      else case obj of
        JNull \<Rightarrow> results
      | JArray xs \<Rightarrow> search_items lowerQuery (take 1000 xs) 0 currentPath depth results
      | JObject kvs \<Rightarrow> search_entries lowerQuery (take 1000 kvs) currentPath depth results
      | _ \<Rightarrow>
          (if includes_str (toLowerCase (String obj)) lowerQuery
           then results @ [\<lparr>rtype = Value, rpath = currentPath, rkey = None, rvalue = obj,
                            rpathString = join (lit ''.'') currentPath\<rparr>]
           else results))"
| "search_items lowerQuery [] index currentPath depth results = results"
| "search_items lowerQuery (item # rest) index currentPath depth results =
     search_items lowerQuery rest (index + 1) currentPath depth
       (if length results \<ge> MAX_RESULTS then results
        else search lowerQuery item (currentPath @ [index_segment index]) (depth + 1) results)"
| "search_entries lowerQuery [] currentPath depth results = results"
| "search_entries lowerQuery ((key, val) # rest) currentPath depth results =
     search_entries lowerQuery rest currentPath depth
       (if length results \<ge> MAX_RESULTS then results
        else search lowerQuery val (currentPath @ [key]) (depth + 1)
               (if includes_str (toLowerCase key) lowerQuery
                then results @ [\<lparr>rtype = Key, rpath = currentPath @ [key], rkey = Some key,
                                 rvalue = val, rpathString = join (lit ''.'') (currentPath @ [key])\<rparr>]
                else results))"
  by pat_completeness auto

termination
  apply (relation "measure (\<lambda>x. case x of
            Inl (lq, obj, cp, d, rs) \<Rightarrow> size obj
          | Inr (Inl (lq, items, i, cp, d, rs)) \<Rightarrow> size_list size items
          | Inr (Inr (lq, entries, cp, d, rs)) \<Rightarrow> size_list (size_prod (\<lambda>x. 0) size) entries)")
  apply (auto simp: size_list_take_less)
  done

declare search.simps [simp del]

text \<open>
  \<^verbatim>\<open>searchInData(data, query, path = [])\<close>: the guard, the traversal from depth 0 with no
  results, and the final \<^verbatim>\<open>slice(0, MAX_RESULTS)\<close>.
\<close>

definition searchInData :: "json \<Rightarrow> jsstring \<Rightarrow> jsstring list \<Rightarrow> search_result list" where
  "searchInData data query path =
     (if trim query = [] \<or> falsy data then []
      else take MAX_RESULTS (search (toLowerCase query) data path 0 []))"

text \<open>
  The effect of \<^verbatim>\<open>App\<close> that fills the \<^verbatim>\<open>searchResults\<close> state once the 300 ms timer has
  fired: the search from the empty path, or no results for a falsy document or a blank
  query.
\<close>

definition searchEffect :: "json \<Rightarrow> jsstring \<Rightarrow> search_result list" where
  "searchEffect jsonData searchQuery =
     (if \<not> falsy jsonData \<and> trim searchQuery \<noteq> [] then searchInData jsonData searchQuery []
      else [])"

section \<open>Loading a file: \<^verbatim>\<open>processFile\<close>\<close>

text \<open>
  What the \<^verbatim>\<open>onload\<close> handler leaves in the states \<^verbatim>\<open>jsonData\<close> and \<^verbatim>\<open>error\<close>: the last
  arguments of \<^verbatim>\<open>setJsonData\<close> and \<^verbatim>\<open>setError\<close> (\<^verbatim>\<open>processFile\<close> clears the error before it
  reads the file). \<^verbatim>\<open>JSON.parse\<close> is a parameter: it returns the value, or \<open>Inl\<close> the message
  of the error it throws.
\<close>

record file_outcome =
  setJsonData :: json
  setError :: jsstring

text \<open>
  The \<^verbatim>\<open>forEach\<close> over the non-blank lines, with the arrays \<^verbatim>\<open>parsedLines\<close> and \<^verbatim>\<open>errors\<close> it
  pushes onto.
\<close>

fun parseLines ::
  "(jsstring \<Rightarrow> jsstring + json) \<Rightarrow> jsstring list \<Rightarrow> nat \<Rightarrow> json list \<times> jsstring list
     \<Rightarrow> json list \<times> jsstring list"
where
  "parseLines JSON_parse [] index (parsedLines, errors) = (parsedLines, errors)"
| "parseLines JSON_parse (line # rest) index (parsedLines, errors) =
     parseLines JSON_parse rest (index + 1)
       (case JSON_parse (trim line) of
          Inr parsed \<Rightarrow> (parsedLines @ [parsed], errors)
        | Inl message \<Rightarrow>
            (parsedLines, errors @ [lit ''Line '' @ digits (index + 1) @ lit '': '' @ message]))"

definition processJsonl :: "(jsstring \<Rightarrow> jsstring + json) \<Rightarrow> jsstring \<Rightarrow> file_outcome" where
  "processJsonl JSON_parse content =
     (let lines = filter (\<lambda>line. trim line \<noteq> []) (split 0x0A content);
          (parsedLines, errors) = parseLines JSON_parse lines 0 ([], [])
      in if length errors > 0 \<and> length parsedLines = 0 then
           \<lparr>setJsonData = JNull,
            setError = lit ''Invalid JSONL file. No valid JSON objects found:'' @ [0x0A]
              @ join [0x0A] (take 5 errors)
              @ (if length errors > 5
                 then [0x0A] @ lit ''... and '' @ digits (length errors - 5) @ lit '' more errors''
                 else [])\<rparr>
         else if length errors > 0 then
           \<lparr>setJsonData = JArray parsedLines,
            setError = lit ''JSONL file contains '' @ digits (length errors)
              @ lit '' invalid lines (skipped). First few errors:'' @ [0x0A]
              @ join [0x0A] (take 3 errors)\<rparr>
         else \<lparr>setJsonData = JArray parsedLines, setError = []\<rparr>)"

definition processFile :: "(jsstring \<Rightarrow> jsstring + json) \<Rightarrow> jsstring \<Rightarrow> jsstring \<Rightarrow> file_outcome" where
  "processFile JSON_parse fileName content =
     (if endsWith (toLowerCase fileName) (lit ''.jsonl'') then processJsonl JSON_parse content
      else case JSON_parse content of
             Inr parsed \<Rightarrow> \<lparr>setJsonData = parsed, setError = []\<rparr>
           | Inl message \<Rightarrow> \<lparr>setJsonData = JNull, setError = lit ''Invalid JSON file: '' @ message\<rparr>)"

section \<open>The tree node: expansion and the window of an array\<close>

text \<open>
  A mounted \<^verbatim>\<open>TreeNode\<close> holds two states, \<^verbatim>\<open>isExpanded\<close> and \<^verbatim>\<open>visibleCount\<close>; the props
  \<^verbatim>\<open>data\<close>, \<^verbatim>\<open>level\<close>, \<^verbatim>\<open>isLargeFile\<close>, \<^verbatim>\<open>path\<close> and \<^verbatim>\<open>name\<close> of a node do not change
  while a document is shown.
\<close>

definition shouldAutoExpand :: "bool \<Rightarrow> nat \<Rightarrow> bool" where
  "shouldAutoExpand isLargeFile level = (if isLargeFile then level < 1 else level < 2)"

text \<open>
  \<^verbatim>\<open>isSearchMatch\<close>: some result's \<^verbatim>\<open>pathString\<close> is the node's own, or starts with it and a
  dot. The node's path is \<^verbatim>\<open>[...path, name]\<close>.
\<close>

definition isSearchMatch :: "search_result list \<Rightarrow> jsstring list \<Rightarrow> jsstring \<Rightarrow> bool" where
  "isSearchMatch searchResults path name =
     (let pathString = join (lit ''.'') (path @ [name])
      in list_ex (\<lambda>result. rpathString result = pathString
                          \<or> startsWith (rpathString result) (pathString @ lit ''.''))
           searchResults)"

record node_state =
  isExpanded :: bool
  visibleCount :: nat

text \<open>
  The initial values that \<^verbatim>\<open>useState\<close> gets.
\<close>

definition initialState :: "bool \<Rightarrow> nat \<Rightarrow> json \<Rightarrow> node_state" where
  "initialState isLargeFile level data =
     \<lparr>isExpanded = shouldAutoExpand isLargeFile level,
      visibleCount = (if isLargeFile \<and> isArray data then 100
                      else (if isArray data then array_length data else 0))\<rparr>"

definition toggleExpanded :: "node_state \<Rightarrow> node_state" where
  "toggleExpanded s = s\<lparr>isExpanded := \<not> isExpanded s\<rparr>"

text \<open>
  The two effects. The first has the dependencies \<^verbatim>\<open>[searchQuery, isSearchMatch]\<close>, the
  second \<^verbatim>\<open>[data, isLargeFile, isArray, isExpanded]\<close>.
\<close>

definition autoExpandEffect :: "jsstring \<Rightarrow> bool \<Rightarrow> node_state \<Rightarrow> node_state" where
  "autoExpandEffect searchQuery searchMatch s =
     (if searchQuery \<noteq> [] \<and> searchMatch then s\<lparr>isExpanded := True\<rparr> else s)"

definition resetVisibleCountEffect :: "bool \<Rightarrow> json \<Rightarrow> node_state \<Rightarrow> node_state" where
  "resetVisibleCountEffect isLargeFile data s =
     (if isLargeFile \<and> isArray data then s\<lparr>visibleCount := 100\<rparr> else s)"

text \<open>
  \<^verbatim>\<open>childEntries\<close>, as pairs of \<^verbatim>\<open>name\<close> and \<^verbatim>\<open>data\<close> (the \<^verbatim>\<open>key\<close> is the index or the
  key again).
\<close>

definition childEntries :: "bool \<Rightarrow> json \<Rightarrow> node_state \<Rightarrow> (jsstring \<times> json) list" where
  "childEntries isLargeFile data s =
     (if \<not> isExpanded s \<or> isPrimitive data then []
      else case data of
        JArray xs \<Rightarrow>
          (let maxItems = (if isLargeFile then visibleCount s else length xs)
           in map (\<lambda>(index, item). (index_segment index, item)) (enumerate 0 (take maxItems xs)))
      | JObject kvs \<Rightarrow> kvs
      | _ \<Rightarrow> [])"

text \<open>
  The load-more button: when it is rendered, what its click does, and the count it shows
  as remaining.
\<close>

definition loadMoreOffered :: "bool \<Rightarrow> json \<Rightarrow> node_state \<Rightarrow> bool" where
  "loadMoreOffered isLargeFile data s =
     (isExpanded s \<and> isArray data \<and> isLargeFile \<and> array_length data > visibleCount s)"

definition loadMore :: "json \<Rightarrow> node_state \<Rightarrow> node_state" where
  "loadMore data s = s\<lparr>visibleCount := min (visibleCount s + 100) (array_length data)\<rparr>"

definition remaining :: "json \<Rightarrow> node_state \<Rightarrow> int" where
  "remaining data s = int (array_length data) - int (visibleCount s)"

text \<open>
  The state of a node once the effects of its mount have run, and the events that change
  it afterwards: a click on the node, a click on load-more (possible only while the button
  is rendered), and a render in which the search query or \<^verbatim>\<open>isSearchMatch\<close> has changed.
  The second effect runs again whenever \<^verbatim>\<open>isExpanded\<close> has changed.
\<close>

definition afterMount :: "bool \<Rightarrow> nat \<Rightarrow> json \<Rightarrow> jsstring \<Rightarrow> bool \<Rightarrow> node_state" where
  "afterMount isLargeFile level data searchQuery searchMatch =
     resetVisibleCountEffect isLargeFile data
       (autoExpandEffect searchQuery searchMatch (initialState isLargeFile level data))"

datatype event = Toggle | LoadMore | SearchChange jsstring bool

fun step :: "bool \<Rightarrow> json \<Rightarrow> event \<Rightarrow> node_state \<Rightarrow> node_state" where
  "step isLargeFile data Toggle s = resetVisibleCountEffect isLargeFile data (toggleExpanded s)"
| "step isLargeFile data LoadMore s =
     (if loadMoreOffered isLargeFile data s then loadMore data s else s)"
| "step isLargeFile data (SearchChange searchQuery searchMatch) s =
     (let s' = autoExpandEffect searchQuery searchMatch s
      in if isExpanded s' \<noteq> isExpanded s then resetVisibleCountEffect isLargeFile data s' else s')"

fun run :: "bool \<Rightarrow> json \<Rightarrow> event list \<Rightarrow> node_state \<Rightarrow> node_state" where
  "run isLargeFile data [] s = s"
| "run isLargeFile data (e # es) s = run isLargeFile data es (step isLargeFile data e s)"

text \<open>
  What a freshly mounted tree shows once the mount effects have run: one entry for every
  mounted node, parents before children. Children are mounted under an expanded node
  only, one level down, with the parent's path as their \<^verbatim>\<open>path\<close>.
\<close>

record rendered_node =
  nodePathString :: jsstring
  nodeLevel :: nat
  nodeSearchMatch :: bool
  nodeExpanded :: bool

lemma size_item_less: "x \<in> set xs \<Longrightarrow> size x < size (JArray xs)"
  by (induction xs) auto

lemma size_entry_less: "(k, v) \<in> set kvs \<Longrightarrow> size v < size (JObject kvs)"
  by (induction kvs) auto

lemma size_list_enumerate:
  "(\<And>i y. h (i, y) = g y) \<Longrightarrow> size_list h (enumerate n ys) = size_list g ys"
  by (induction ys arbitrary: n) auto

lemma size_list_snd_enumerate:
  "size_list ((\<lambda>p. size (snd p)) \<circ> (\<lambda>(index, item). (f index, item))) (enumerate n ys)
     = size_list size ys"
  by (rule size_list_enumerate) simp

lemma size_list_snd_entries:
  "size_list (\<lambda>p. size (snd p)) kvs \<le> size_list (size_prod (\<lambda>x. 0) size) kvs"
  by (induction kvs) auto

lemma childEntries_size:
  "size_list (\<lambda>p. size (snd p)) (childEntries isLargeFile data s) \<le> size data"
proof (cases data)
  case (JArray xs)
  have "size_list size (take n xs) \<le> Suc (size_list size xs)" for n
    using size_list_take_less [of size n xs] by simp
  with JArray show ?thesis
    by (simp add: childEntries_def size_list_snd_enumerate Let_def)
next
  case (JObject kvs)
  then show ?thesis
    using size_list_snd_entries [of kvs]
    by (simp add: childEntries_def)
qed (simp_all add: childEntries_def)

function TreeNode ::
    "bool \<Rightarrow> jsstring \<Rightarrow> search_result list \<Rightarrow> json \<Rightarrow> jsstring \<Rightarrow> nat \<Rightarrow> jsstring list
       \<Rightarrow> rendered_node list"
  and TreeNode_children ::
    "bool \<Rightarrow> jsstring \<Rightarrow> search_result list \<Rightarrow> (jsstring \<times> json) list \<Rightarrow> nat \<Rightarrow> jsstring list
       \<Rightarrow> rendered_node list"
where
  "TreeNode isLargeFile searchQuery searchResults data name level path =
     \<lparr>nodePathString = join (lit ''.'') (path @ [name]), nodeLevel = level,
      nodeSearchMatch = isSearchMatch searchResults path name,
      nodeExpanded = isExpanded (afterMount isLargeFile level data searchQuery
                                  (isSearchMatch searchResults path name))\<rparr>
     # TreeNode_children isLargeFile searchQuery searchResults
         (childEntries isLargeFile data
            (afterMount isLargeFile level data searchQuery (isSearchMatch searchResults path name)))
         (level + 1) (path @ [name])"
| "TreeNode_children isLargeFile searchQuery searchResults [] level currentPath = []"
| "TreeNode_children isLargeFile searchQuery searchResults ((childName, childData) # rest)
       level currentPath =
     TreeNode isLargeFile searchQuery searchResults childData childName level currentPath
     @ TreeNode_children isLargeFile searchQuery searchResults rest level currentPath"
  by pat_completeness auto

termination
proof (relation "measure (\<lambda>x. case x of
            Inl (isLargeFile, searchQuery, searchResults, data, name, level, path) \<Rightarrow>
              2 * size data + 1
          | Inr (isLargeFile, searchQuery, searchResults, entries, level, currentPath) \<Rightarrow>
              2 * size_list (\<lambda>p. size (snd p)) entries)", goal_cases)
  case 1
  show ?case by simp
next
  case (2 isLargeFile searchQuery searchResults data name level path)
  show ?case
    using childEntries_size [of isLargeFile data
        "afterMount isLargeFile level data searchQuery (isSearchMatch searchResults path name)"]
    by simp
next
  case 3
  show ?case by simp
next
  case 4
  show ?case by simp
qed

declare TreeNode.simps [simp del]

text \<open>
  \<^verbatim>\<open>App\<close> renders the tree for a truthy document only, at level 0 and the empty path,
  under the name \<^verbatim>\<open>root\<close>, or \<^verbatim>\<open>jsonl_records\<close> for a JSONL file.
\<close>

definition App_tree :: "bool \<Rightarrow> bool \<Rightarrow> json \<Rightarrow> jsstring \<Rightarrow> rendered_node list" where
  "App_tree isJsonlFile isLargeFile jsonData searchQuery =
     (if falsy jsonData then []
      else TreeNode isLargeFile searchQuery (searchEffect jsonData searchQuery) jsonData
             (if isJsonlFile then (lit ''jsonl_records'') else (lit ''root'')) 0 [])"

section \<open>Vocabulary of the properties\<close>

text \<open>
  The values a path addresses in a document. A segment selects the array elements whose
  index prints as the segment and the object entries whose key is the segment, so a path
  resolves to a list of values: one value at most where keys are distinct and no key
  looks like an index.
\<close>

fun children_at :: "json \<Rightarrow> jsstring \<Rightarrow> json list" where
  "children_at (JArray xs) seg =
     map snd (filter (\<lambda>(index, item). index_segment index = seg) (enumerate 0 xs))"
| "children_at (JObject kvs) seg = map snd (filter (\<lambda>(key, val). key = seg) kvs)"
| "children_at _ seg = []"

fun resolve :: "json \<Rightarrow> jsstring list \<Rightarrow> json list" where
  "resolve root [] = [root]"
| "resolve root (seg # path) = concat (map (\<lambda>child. resolve child path) (children_at root seg))"

text \<open>
  \<open>key_at root path key val\<close>: the path leads to an object that has the entry
  \<open>(key, val)\<close>.
\<close>

definition key_at :: "json \<Rightarrow> jsstring list \<Rightarrow> jsstring \<Rightarrow> json \<Rightarrow> bool" where
  "key_at root path key val =
     list_ex (\<lambda>parent. case parent of JObject kvs \<Rightarrow> (key, val) \<in> set kvs | _ \<Rightarrow> False)
       (resolve root path)"

text \<open>
  A result is sound for a lower-cased query when its path leads to its value, its
  \<^verbatim>\<open>pathString\<close> is the path joined by dots, and either it is a key match whose last segment
  is a key of an object, containing the query, or it is a value match whose value is a
  boolean, a number or a string whose string form contains the query. Both tests ignore
  case.
\<close>

definition sound_result :: "jsstring \<Rightarrow> json \<Rightarrow> search_result \<Rightarrow> bool" where
  "sound_result lowerQuery root m =
     (rvalue m \<in> set (resolve root (rpath m))
      \<and> rpathString m = join (lit ''.'') (rpath m)
      \<and> (case rtype m of
            Key \<Rightarrow> rpath m \<noteq> [] \<and> rkey m = Some (last (rpath m))
                   \<and> key_at root (butlast (rpath m)) (last (rpath m)) (rvalue m)
                   \<and> includes_str (toLowerCase (last (rpath m))) lowerQuery
          | Value \<Rightarrow> rkey m = None \<and> isPrimitive (rvalue m) \<and> rvalue m \<noteq> JNull
                   \<and> includes_str (toLowerCase (String (rvalue m))) lowerQuery))"

text \<open>
  \<open>clip depth obj\<close> is what is left of a value found at \<open>depth\<close> when each container keeps
  its first 1000 entries only and every value deeper than \<open>MAX_DEPTH\<close> becomes
  \<^verbatim>\<open>null\<close>. A key match carries the value under the key, which \<open>clip_result\<close> clips at the
  depth of the match.
\<close>

function clip :: "nat \<Rightarrow> json \<Rightarrow> json" where
  "clip depth (JArray xs) =
     (if depth > MAX_DEPTH then JNull
      else JArray (map (clip (depth + 1)) (take 1000 xs)))"
| "clip depth (JObject kvs) =
     (if depth > MAX_DEPTH then JNull
      else JObject (map (\<lambda>(key, val). (key, clip (depth + 1) val)) (take 1000 kvs)))"
| "clip depth JNull = JNull"
| "clip depth (JBool b) = (if depth > MAX_DEPTH then JNull else JBool b)"
| "clip depth (JNumber n) = (if depth > MAX_DEPTH then JNull else JNumber n)"
| "clip depth (JString s) = (if depth > MAX_DEPTH then JNull else JString s)"
  by pat_completeness auto

termination
proof (relation "measure (\<lambda>(depth, obj). size obj)", goal_cases)
  case 1
  show ?case by simp
next
  case (2 depth xs x)
  then show ?case
    using size_item_less [of x xs] by (auto dest: in_set_takeD)
next
  case (3 depth kvs x key val)
  then show ?case
    using size_entry_less [of key val kvs] by (auto dest: in_set_takeD)
qed

definition clip_result :: "search_result \<Rightarrow> search_result" where
  "clip_result m = m\<lparr>rvalue := clip (length (rpath m)) (rvalue m)\<rparr>"

text \<open>
  The size of a call of \<open>search\<close>, \<open>search_items\<close> or \<open>search_entries\<close>: the size of the
  value, or of the list, it is made on.
\<close>

definition call_size ::
  "jsstring \<times> json \<times> jsstring list \<times> nat \<times> search_result list
   + jsstring \<times> json list \<times> nat \<times> jsstring list \<times> nat \<times> search_result list
   + jsstring \<times> (jsstring \<times> json) list \<times> jsstring list \<times> nat \<times> search_result list \<Rightarrow> nat" where
  "call_size call =
     (case call of
        Inl (lowerQuery, obj, currentPath, depth, results) \<Rightarrow> size obj
      | Inr (Inl (lowerQuery, items, index, currentPath, depth, results)) \<Rightarrow> size_list size items
      | Inr (Inr (lowerQuery, entries, currentPath, depth, results)) \<Rightarrow>
          size_list (size_prod (\<lambda>x. 0) size) entries)"

text \<open>
  The bound on \<^verbatim>\<open>visibleCount\<close>: at most the length of the array, or exactly one page for
  a shorter array in a large file.
\<close>

definition window_ok :: "bool \<Rightarrow> json \<Rightarrow> node_state \<Rightarrow> bool" where
  "window_ok isLargeFile data s =
     (visibleCount s \<le> array_length data
      \<or> (isLargeFile \<and> isArray data \<and> array_length data < 100 \<and> visibleCount s = 100))"

text \<open>
  The non-blank lines of a file, the records they parse to, and the lines that fail.
\<close>

definition nonblank_lines :: "jsstring \<Rightarrow> jsstring list" where
  "nonblank_lines content = filter (\<lambda>line. trim line \<noteq> []) (split 0x0A content)"

definition parsed_records :: "(jsstring \<Rightarrow> jsstring + json) \<Rightarrow> jsstring list \<Rightarrow> json list" where
  "parsed_records JSON_parse lines =
     List.map_filter (\<lambda>line. case JSON_parse (trim line) of Inr parsed \<Rightarrow> Some parsed | Inl message \<Rightarrow> None)
       lines"

definition failed_lines :: "(jsstring \<Rightarrow> jsstring + json) \<Rightarrow> jsstring list \<Rightarrow> jsstring list" where
  "failed_lines JSON_parse lines = filter (\<lambda>line. isl (JSON_parse (trim line))) lines"

text \<open>
  The first code unit of a path, and the results whose path starts with an index.
\<close>

fun first_char :: "jsstring list \<Rightarrow> code_unit option" where
  "first_char ((c # seg) # rest) = Some c"
| "first_char _ = None"

definition indexed_result :: "search_result \<Rightarrow> bool" where
  "indexed_result m =
     (first_char (rpath m) = Some 0x5B \<and> rpathString m = join (lit ''.'') (rpath m))"

text \<open>
  The documents of the examples. \<open>nest n v\<close> wraps \<open>v\<close> in \<open>n\<close> arrays of one element.
\<close>

definition nested_example :: json where
  "nested_example =
     JObject [(lit ''a'', JObject [(lit ''b'', JNumber 1),
                               (lit ''c'', JArray [JNumber 1, JNumber 2, JNumber 3])])]"

definition blank_example :: json where
  "blank_example =
     JObject [(lit ''a b'', JString (lit ''x y'')),
              (lit ''c'', JString [0x78, 0x00A0, 0x2028, 0xFEFF, 0x79])]"

definition scenario_42 :: json where
  "scenario_42 = JObject [(lit ''x'', JNumber 42), (lit ''y'', JString (lit ''value42''))]"

definition short_array_example :: json where
  "short_array_example = JArray [JString (lit ''x''), JString (lit ''y''), JString (lit ''z'')]"

definition deep_example :: json where
  "deep_example = JObject [(lit ''a'', JObject [(lit ''b'', JObject [(lit ''c'', JNumber 1)])])]"

definition shadowed_example :: json where
  "shadowed_example =
     JObject [(lit ''root'', JObject [(lit ''x'', JObject [(lit ''y'', JObject [(lit ''needle'', JNumber 1)])])]),
              (lit ''x'', JObject [(lit ''y'', JObject [(lit ''other'', JNumber 2)])])]"

fun nest :: "nat \<Rightarrow> json \<Rightarrow> json" where
  "nest 0 v = v"
| "nest (Suc n) v = JArray [nest n v]"

text \<open>
  A file of JSON Lines with a blank line, a line ending in CR and a line that does not
  parse, and what \<^verbatim>\<open>JSON.parse\<close> answers on its lines.
\<close>

definition example_parse :: "jsstring \<Rightarrow> jsstring + json" where
  "example_parse s =
     (if s = lit ''{}'' then Inr (JObject [])
      else if s = lit ''[1]'' then Inr (JArray [JNumber 1])
      else Inl (lit ''Unexpected token''))"

definition example_jsonl :: jsstring where
  "example_jsonl =
     (lit ''{}'') @ [0x0A] @ lit ''{oops'' @ [0x0D, 0x0A] @ [0x0A] @ lit '' [1] '' @ [0x0A]"

section \<open>Properties\<close>

subsection \<open>The search: empty and absent inputs\<close>

text \<open>
  A query trims to nothing exactly when each of its code units is white space or a line
  terminator.
\<close>

lemma trim_Nil_iff: "trim s = [] \<longleftrightarrow> (\<forall>c\<in>set s. is_whitespace c)"
proof
  assume "trim s = []"
  then have rest: "\<forall>c\<in>set (dropWhile is_whitespace s). is_whitespace c"
    by (simp add: trim_def dropWhile_eq_Nil_conv)
  have "dropWhile is_whitespace s = []"
  proof (rule ccontr)
    assume "dropWhile is_whitespace s \<noteq> []"
    then have "hd (dropWhile is_whitespace s) \<in> set (dropWhile is_whitespace s)"
      and "\<not> is_whitespace (hd (dropWhile is_whitespace s))"
      by (simp_all add: hd_dropWhile)
    with rest show False by blast
  qed
  then show "\<forall>c\<in>set s. is_whitespace c"
    by (simp add: dropWhile_eq_Nil_conv)
next
  assume "\<forall>c\<in>set s. is_whitespace c"
  then show "trim s = []"
    by (auto simp: trim_def dest: set_dropWhileD)
qed

text \<open>
  C9: \<open>searchInData\<close> returns the empty result whenever the query is empty or consists of
  white space only, that is, whenever each of its code units is one of the white space
  and line terminator code units that \<^verbatim>\<open>trim\<close> strips, or the document is absent
  (\<^verbatim>\<open>null\<close>).
\<close>

theorem C9_search_noop:
  "set query \<subseteq> {0x0009, 0x000A, 0x000B, 0x000C, 0x000D, 0x0020, 0x00A0, 0x1680,
                 0x2000, 0x2001, 0x2002, 0x2003, 0x2004, 0x2005, 0x2006, 0x2007, 0x2008,
                 0x2009, 0x200A, 0x2028, 0x2029, 0x202F, 0x205F, 0x3000, 0xFEFF}
     \<or> data = JNull
   \<Longrightarrow> searchInData data query path = []"
proof (erule disjE)
  assume "set query \<subseteq> {0x0009, 0x000A, 0x000B, 0x000C, 0x000D, 0x0020, 0x00A0, 0x1680,
                 0x2000, 0x2001, 0x2002, 0x2003, 0x2004, 0x2005, 0x2006, 0x2007, 0x2008,
                 0x2009, 0x200A, 0x2028, 0x2029, 0x202F, 0x205F, 0x3000, 0xFEFF}"
  then have "\<forall>c\<in>set query. is_whitespace c"
    unfolding is_whitespace_def by (simp add: subset_iff)
  then have "trim query = []"
    by (simp add: trim_Nil_iff)
  then show ?thesis
    by (simp add: searchInData_def)
next
  assume "data = JNull"
  then show ?thesis
    by (simp add: searchInData_def)
qed

text \<open>
  In \<open>blank_example\<close> the traversal itself finds a space, and the no-break space, line
  separator and byte order mark in a row; the guard is what returns nothing for these
  queries.
\<close>

theorem C9_search_noop_witness:
  "searchInData blank_example (lit '' '') [] = []
   \<and> length (search (toLowerCase (lit '' '')) blank_example [] 0 []) = 2
   \<and> searchInData blank_example [0x00A0, 0x2028, 0xFEFF] [] = []
   \<and> length (search (toLowerCase [0x00A0, 0x2028, 0xFEFF]) blank_example [] 0 []) = 1
   \<and> searchInData blank_example [] [] = []
   \<and> searchInData JNull (lit ''x'') [] = []
   \<and> length (searchInData blank_example (lit ''x'') []) = 2"
proof -
  have space: "length (search (toLowerCase (lit '' '')) blank_example [] 0 []) = 2"
    by code_simp
  have unicode: "length (search (toLowerCase [0x00A0, 0x2028, 0xFEFF]) blank_example [] 0 []) = 1"
    by code_simp
  have letter: "length (searchInData blank_example (lit ''x'') []) = 2"
    by code_simp
  show ?thesis
    using C9_search_noop [of "lit '' ''" blank_example "[]"]
      C9_search_noop [of "[0x00A0, 0x2028, 0xFEFF]" blank_example "[]"]
      C9_search_noop [of "[]" blank_example "[]"]
      C9_search_noop [of "lit ''x''" JNull "[]"]
      space unicode letter
    by (simp add: lit_def)
qed

text \<open>
  C10: the documents \<^verbatim>\<open>false\<close>, \<^verbatim>\<open>0\<close> and the empty string are present but falsy, so
  the guard \<^verbatim>\<open>!data\<close> returns the empty result for every query, also for the queries
  \<^verbatim>\<open>false\<close> and \<^verbatim>\<open>0\<close>, which the stringified document contains.
\<close>

theorem C10_falsy_documents_never_match:
  "searchInData (JBool False) query [] = []
   \<and> searchInData (JNumber 0) query [] = []
   \<and> searchInData (JString []) query [] = []
   \<and> includes_str (toLowerCase (String (JBool False))) (toLowerCase (lit ''False''))
   \<and> includes_str (toLowerCase (String (JNumber 0))) (toLowerCase (lit ''0''))"
proof -
  have "includes_str (toLowerCase (String (JBool False))) (toLowerCase (lit ''False''))"
    by code_simp
  moreover have "includes_str (toLowerCase (String (JNumber 0))) (toLowerCase (lit ''0''))"
    by code_simp
  ultimately show ?thesis
    by (simp add: searchInData_def)
qed

theorem C10_falsy_documents_never_match_witness:
  "searchInData (JBool False) (lit ''False'') [] = []
   \<and> searchInData (JNumber 0) (lit ''0'') [] = []
   \<and> length (searchInData (JBool True) (lit ''True'') []) = 1"
proof -
  have "length (searchInData (JBool True) (lit ''True'') []) = 1"
    by code_simp
  then show ?thesis
    using C10_falsy_documents_never_match [of "lit ''False''"]
      C10_falsy_documents_never_match [of "lit ''0''"]
    by simp
qed

subsection \<open>The search: every result is a real match\<close>

lemma includes_str_sublist: "includes_str s sub \<longleftrightarrow> sublist sub s"
  by (induction s) (simp_all add: sublist_Cons_right)

lemma in_resolve_snoc:
  "v \<in> set (resolve root path) \<Longrightarrow> child \<in> set (children_at v seg)
     \<Longrightarrow> child \<in> set (resolve root (path @ [seg]))"
  by (induction path arbitrary: root) auto

lemma resolve_item:
  assumes "JArray xs \<in> set (resolve root path)" and "i < length xs"
  shows "xs ! i \<in> set (resolve root (path @ [index_segment i]))"
proof -
  have "(i, xs ! i) \<in> set (enumerate 0 xs)"
    using assms(2) by (simp add: in_set_enumerate_eq)
  then have "xs ! i \<in> set (children_at (JArray xs) (index_segment i))"
    by force
  with assms(1) show ?thesis
    by (rule in_resolve_snoc)
qed

lemma resolve_entry:
  assumes "JObject kvs \<in> set (resolve root path)" and "(key, val) \<in> set kvs"
  shows "val \<in> set (resolve root (path @ [key]))"
proof -
  have "val \<in> set (children_at (JObject kvs) key)"
    using assms(2) by force
  with assms(1) show ?thesis
    by (rule in_resolve_snoc)
qed

lemma key_atI:
  "JObject kvs \<in> set (resolve root path) \<Longrightarrow> (key, val) \<in> set kvs
     \<Longrightarrow> key_at root path key val"
  unfolding key_at_def list_ex_iff by (rule bexI [of _ "JObject kvs"]) simp_all

lemma search_sound:
  shows "obj \<in> set (resolve root currentPath) \<Longrightarrow> \<forall>m\<in>set results. sound_result lowerQuery root m
      \<Longrightarrow> \<forall>m\<in>set (search lowerQuery obj currentPath depth results). sound_result lowerQuery root m"
    and "JArray xs \<in> set (resolve root currentPath)
      \<Longrightarrow> \<forall>j<length items. index + j < length xs \<and> xs ! (index + j) = items ! j
      \<Longrightarrow> \<forall>m\<in>set results. sound_result lowerQuery root m
      \<Longrightarrow> \<forall>m\<in>set (search_items lowerQuery items index currentPath depth results).
            sound_result lowerQuery root m"
    and "JObject kvs \<in> set (resolve root currentPath) \<Longrightarrow> set entries \<subseteq> set kvs
      \<Longrightarrow> \<forall>m\<in>set results. sound_result lowerQuery root m
      \<Longrightarrow> \<forall>m\<in>set (search_entries lowerQuery entries currentPath depth results).
            sound_result lowerQuery root m"
proof (induction lowerQuery obj currentPath depth results
    and lowerQuery items index currentPath depth results
    and lowerQuery entries currentPath depth results
    arbitrary: and xs and kvs
    rule: search_search_items_search_entries.induct)
  case (1 lowerQuery obj currentPath depth results)
  show ?case
  proof (cases "length results \<ge> MAX_RESULTS \<or> depth > MAX_DEPTH")
    case True
    with "1.prems" show ?thesis by (simp add: search.simps)
  next
    case False
    show ?thesis
    proof (cases obj)
      case (JArray ys)
      have "\<forall>j<length (take 1000 ys). 0 + j < length ys \<and> ys ! (0 + j) = take 1000 ys ! j"
        by simp
      with "1.IH"(1) [OF False JArray, of ys] "1.prems" JArray False show ?thesis
        by (simp add: search.simps)
    next
      case (JObject es)
      have "set (take 1000 es) \<subseteq> set es"
        by (rule set_take_subset)
      with "1.IH"(2) [OF False JObject, of es] "1.prems" JObject False show ?thesis
        by (simp add: search.simps)
    qed (use "1.prems" False in \<open>auto simp: search.simps sound_result_def isPrimitive_def\<close>)
  qed
next
  case (2 lowerQuery index currentPath depth results)
  then show ?case by simp
next
  case (3 lowerQuery item rest index currentPath depth results)
  from "3.prems"(2) have here: "index < length xs" "xs ! index = item"
    by force+
  from "3.prems"(2) have rest: "\<forall>j<length rest. (index + 1) + j < length xs \<and> xs ! ((index + 1) + j) = rest ! j"
    by (metis Suc_eq_plus1 Suc_less_eq add_Suc_shift length_Cons nth_Cons_Suc add_Suc)
  have item: "item \<in> set (resolve root (currentPath @ [index_segment index]))"
    using resolve_item [OF "3.prems"(1) here(1)] here(2) by simp
  show ?case
  proof (cases "length results \<ge> MAX_RESULTS")
    case True
    with "3.IH"(2) [OF "3.prems"(1) _ ] rest "3.prems"(3) show ?thesis
      by simp
  next
    case False
    have "\<forall>m\<in>set (search lowerQuery item (currentPath @ [index_segment index]) (depth + 1) results).
            sound_result lowerQuery root m"
      using "3.IH"(1) [OF False item "3.prems"(3)] .
    with "3.IH"(2) [OF "3.prems"(1)] rest False show ?thesis
      by simp
  qed
next
  case (4 lowerQuery currentPath depth results)
  then show ?case by simp
next
  case (5 lowerQuery key val rest currentPath depth results)
  from "5.prems"(2) have entry: "(key, val) \<in> set kvs" and rest: "set rest \<subseteq> set kvs"
    by simp_all
  have val: "val \<in> set (resolve root (currentPath @ [key]))"
    using resolve_entry [OF "5.prems"(1) entry] .
  show ?case
  proof (cases "length results \<ge> MAX_RESULTS")
    case True
    with "5.IH"(2) [OF "5.prems"(1) rest] "5.prems"(3) show ?thesis
      by simp
  next
    case False
    let ?pushed = "if includes_str (toLowerCase key) lowerQuery
                then results @ [\<lparr>rtype = Key, rpath = currentPath @ [key], rkey = Some key,
                                 rvalue = val, rpathString = join (lit ''.'') (currentPath @ [key])\<rparr>]
                else results"
    have "key_at root currentPath key val"
      using "5.prems"(1) entry by (rule key_atI)
    then have "\<forall>m\<in>set ?pushed. sound_result lowerQuery root m"
      using "5.prems"(3) val by (auto simp: sound_result_def)
    then have "\<forall>m\<in>set (search lowerQuery val (currentPath @ [key]) (depth + 1) ?pushed).
            sound_result lowerQuery root m"
      using "5.IH"(1) [OF False val] by blast
    with "5.IH"(2) [OF "5.prems"(1) rest] False show ?thesis
      by simp
  qed
qed

text \<open>
  C2: \<open>searchInData\<close> returns at most 1000 results, and every result's path leads to its
  value in the document; a key match ends in a key of an object that contains the query,
  a value match has a boolean, a number or a string whose string form contains the
  query, both without regard to case. No array or object is ever a value match.
\<close>

theorem C2_search_results_sound:
  "length (searchInData data query []) \<le> 1000
   \<and> (\<forall>m\<in>set (searchInData data query []).
         rvalue m \<in> set (resolve data (rpath m))
         \<and> (case rtype m of
               Key \<Rightarrow> rpath m \<noteq> [] \<and> rkey m = Some (last (rpath m))
                      \<and> key_at data (butlast (rpath m)) (last (rpath m)) (rvalue m)
                      \<and> includes_str (toLowerCase (last (rpath m))) (toLowerCase query)
             | Value \<Rightarrow> isPrimitive (rvalue m) \<and> rvalue m \<noteq> JNull
                      \<and> includes_str (toLowerCase (String (rvalue m))) (toLowerCase query)))"
proof -
  have "\<forall>m\<in>set (search (toLowerCase query) data [] 0 []). sound_result (toLowerCase query) data m"
    by (rule search_sound(1)) simp_all
  then have "\<forall>m\<in>set (searchInData data query []). sound_result (toLowerCase query) data m"
    by (auto simp: searchInData_def dest: in_set_takeD)
  then show ?thesis
    by (auto simp: sound_result_def searchInData_def MAX_RESULTS_def split: match_type.splits)
qed

theorem C2_search_results_sound_witness:
  "searchInData scenario_42 (lit ''42'') []
     = [\<lparr>rtype = Value, rpath = [lit ''x''], rkey = None, rvalue = JNumber 42, rpathString = lit ''x''\<rparr>,
        \<lparr>rtype = Value, rpath = [lit ''y''], rkey = None, rvalue = JString (lit ''value42''),
          rpathString = lit ''y''\<rparr>]
   \<and> JNumber 42 \<in> set (resolve scenario_42 [lit ''x''])
   \<and> includes_str (toLowerCase (String (JNumber 42))) (toLowerCase (lit ''42''))
   \<and> JString (lit ''value42'') \<in> set (resolve scenario_42 [lit ''y''])
   \<and> includes_str (toLowerCase (String (JString (lit ''value42'')))) (toLowerCase (lit ''42''))"
proof -
  have found: "searchInData scenario_42 (lit ''42'') []
     = [\<lparr>rtype = Value, rpath = [lit ''x''], rkey = None, rvalue = JNumber 42, rpathString = lit ''x''\<rparr>,
        \<lparr>rtype = Value, rpath = [lit ''y''], rkey = None, rvalue = JString (lit ''value42''),
          rpathString = lit ''y''\<rparr>]"
    by code_simp
  show ?thesis
    using C2_search_results_sound [of scenario_42 "lit ''42''"] unfolding found
    by simp
qed

subsection \<open>The search: depth, breadth and result caps\<close>

lemma search_clip:
  shows "depth = length currentPath \<Longrightarrow>
      search lowerQuery (clip depth obj) currentPath depth (map clip_result results)
        = map clip_result (search lowerQuery obj currentPath depth results)"
    and "depth = length currentPath \<Longrightarrow>
      search_items lowerQuery (map (clip (depth + 1)) items) index currentPath depth
          (map clip_result results)
        = map clip_result (search_items lowerQuery items index currentPath depth results)"
    and "depth = length currentPath \<Longrightarrow>
      search_entries lowerQuery (map (\<lambda>(key, val). (key, clip (depth + 1) val)) entries)
          currentPath depth (map clip_result results)
        = map clip_result (search_entries lowerQuery entries currentPath depth results)"
proof (induction lowerQuery obj currentPath depth results
    and lowerQuery items index currentPath depth results
    and lowerQuery entries currentPath depth results
    rule: search_search_items_search_entries.induct)
  case (1 lowerQuery obj currentPath depth results)
  show ?case
  proof (cases "length results \<ge> MAX_RESULTS \<or> depth > MAX_DEPTH")
    case True
    then show ?thesis by (auto simp: search.simps)
  next
    case False
    show ?thesis
    proof (cases obj)
      case (JArray xs)
      with "1.IH"(1) [OF False JArray "1.prems"] False show ?thesis
        by (simp add: search.simps take_map)
    next
      case (JObject kvs)
      with "1.IH"(2) [OF False JObject "1.prems"] False show ?thesis
        by (simp add: search.simps take_map)
    qed (use False "1.prems" in \<open>simp_all add: search.simps clip_result_def\<close>)
  qed
next
  case (2 lowerQuery index currentPath depth results)
  show ?case by simp
next
  case (3 lowerQuery item rest index currentPath depth results)
  show ?case
  proof (cases "length results \<ge> MAX_RESULTS")
    case True
    with "3.IH"(2) [OF "3.prems"] show ?thesis by simp
  next
    case False
    have "search lowerQuery (clip (depth + 1) item) (currentPath @ [index_segment index])
            (depth + 1) (map clip_result results)
          = map clip_result (search lowerQuery item (currentPath @ [index_segment index])
              (depth + 1) results)"
      using "3.IH"(1) [OF False] "3.prems" by simp
    with "3.IH"(2) [OF "3.prems"] False show ?thesis by simp
  qed
next
  case (4 lowerQuery currentPath depth results)
  show ?case by simp
next
  case (5 lowerQuery key val rest currentPath depth results)
  show ?case
  proof (cases "length results \<ge> MAX_RESULTS")
    case True
    with "5.IH"(2) [OF "5.prems"] show ?thesis by simp
  next
    case False
    have pushed: "clip_result \<lparr>rtype = Key, rpath = currentPath @ [key], rkey = Some key,
                      rvalue = val, rpathString = join (lit ''.'') (currentPath @ [key])\<rparr>
          = \<lparr>rtype = Key, rpath = currentPath @ [key], rkey = Some key,
              rvalue = clip (depth + 1) val, rpathString = join (lit ''.'') (currentPath @ [key])\<rparr>"
      using "5.prems" by (simp add: clip_result_def)
    show ?thesis
    proof (cases "includes_str (toLowerCase key) lowerQuery")
      case True
      from "5.IH"(1) [OF False] "5.prems" True pushed
      have "search lowerQuery (clip (depth + 1) val) (currentPath @ [key]) (depth + 1)
              (map clip_result results
               @ [\<lparr>rtype = Key, rpath = currentPath @ [key], rkey = Some key,
                   rvalue = clip (depth + 1) val,
                   rpathString = join (lit ''.'') (currentPath @ [key])\<rparr>])
            = map clip_result (search lowerQuery val (currentPath @ [key]) (depth + 1)
                (results @ [\<lparr>rtype = Key, rpath = currentPath @ [key], rkey = Some key,
                              rvalue = val, rpathString = join (lit ''.'') (currentPath @ [key])\<rparr>]))"
        by simp
      with "5.IH"(2) [OF "5.prems"] False True show ?thesis by simp
    next
      case absent: False
      from "5.IH"(1) [OF False] "5.prems" absent
      have "search lowerQuery (clip (depth + 1) val) (currentPath @ [key]) (depth + 1)
              (map clip_result results)
            = map clip_result (search lowerQuery val (currentPath @ [key]) (depth + 1) results)"
        by simp
      with "5.IH"(2) [OF "5.prems"] False absent show ?thesis by simp
    qed
  qed
qed

lemma falsy_clip: "falsy (clip 0 data) = falsy data"
  by (cases data) (simp_all add: MAX_DEPTH_def)

lemma search_full:
  "length results \<ge> MAX_RESULTS \<Longrightarrow> search lowerQuery obj currentPath depth results = results"
  "length results \<ge> MAX_RESULTS \<Longrightarrow>
     search_items lowerQuery items index currentPath depth results = results"
  "length results \<ge> MAX_RESULTS \<Longrightarrow>
     search_entries lowerQuery entries currentPath depth results = results"
    apply (simp add: search.simps)
   apply (induction items arbitrary: index) apply simp_all
  apply (induction entries) apply auto
  done

lemma search_items_nulls:
  "search_items lowerQuery (replicate n JNull) index currentPath depth results = results"
  by (induction n arbitrary: index) (auto simp: search.simps)

text \<open>
  Every call lies in the domain of the recursion: a call that \<open>search\<close> or one of its
  loops makes is smaller than the call that makes it, so the calls below any call form a
  well-founded tree.
\<close>

lemma search_terminates: "search_search_items_search_entries_dom call"
proof (induction call rule: measure_induct_rule [of call_size])
  case (less call)
  show ?case
  proof (rule accp.accI)
    fix inner
    assume "search_search_items_search_entries_rel inner call"
    then have "call_size inner < call_size call"
      by (cases rule: search_search_items_search_entries_rel.cases)
        (auto simp: call_size_def size_list_take_less)
    then show "search_search_items_search_entries_dom inner"
      by (rule less.IH)
  qed
qed

text \<open>
  C7: the traversal terminates on every document and query, and the three caps hold while
  it runs. It returns at once at a depth above 50 or with 1000 results in hand, and both
  loops then add nothing for the entries left. Its result is the result on the clipped
  document, in which every container has its first 1000 entries only and nothing lies
  deeper than 50: nothing else of the document is looked at.
\<close>

theorem C7_search_is_bounded:
  "(length results \<ge> MAX_RESULTS \<or> depth > MAX_DEPTH
      \<longrightarrow> search lowerQuery obj currentPath depth results = results)
   \<and> (length results \<ge> MAX_RESULTS
      \<longrightarrow> search_items lowerQuery items index currentPath depth results = results
        \<and> search_entries lowerQuery entries currentPath depth results = results)
   \<and> searchInData (clip 0 data) query [] = map clip_result (searchInData data query [])
   \<and> MAX_RESULTS = 1000 \<and> MAX_DEPTH = 50
   \<and> search_search_items_search_entries_dom
       (Inl (lowerQuery, obj, currentPath, depth, results))"
proof -
  have "searchInData (clip 0 data) query [] = map clip_result (searchInData data query [])"
    using search_clip(1) [of 0 "[]" "toLowerCase query" data "[]"]
    by (simp add: searchInData_def falsy_clip take_map)
  then show ?thesis
    using search_full [of results] search_terminates
    by (auto simp: search.simps MAX_RESULTS_def MAX_DEPTH_def)
qed

theorem C7_search_is_bounded_witness:
  "search (lit ''x'') (JString (lit ''x'')) [] 51 [] = []
   \<and> length (search (lit ''x'') (JString (lit ''x'')) [] 50 []) = 1
   \<and> searchInData (nest 51 (JString (lit ''x''))) (lit ''x'') [] = []
   \<and> length (searchInData (nest 50 (JString (lit ''x''))) (lit ''x'') []) = 1
   \<and> searchInData (JArray (replicate 1000 JNull @ [JString (lit ''x'')])) (lit ''x'') [] = []
   \<and> length (searchInData (JArray (replicate 3 JNull @ [JString (lit ''x'')])) (lit ''x'') []) = 1"
proof -
  have deep: "searchInData (nest 51 (JString (lit ''x''))) (lit ''x'') [] = []"
    by code_simp
  have shallow: "length (searchInData (nest 50 (JString (lit ''x''))) (lit ''x'') []) = 1"
    by code_simp
  have narrow: "length (searchInData (JArray (replicate 3 JNull @ [JString (lit ''x'')])) (lit ''x'') []) = 1"
    by code_simp
  have at50: "length (search (lit ''x'') (JString (lit ''x'')) [] 50 []) = 1"
    by code_simp
  have blank: "trim (lit ''x'') \<noteq> []"
    by code_simp
  have clipped: "clip 0 (JArray (replicate 1000 JNull @ [JString (lit ''x'')])) = JArray (replicate 1000 JNull)"
    by (simp add: MAX_DEPTH_def)
  have "searchInData (JArray (replicate 1000 JNull)) (lit ''x'') [] = []"
    using blank by (simp add: searchInData_def search.simps search_items_nulls)
  moreover have "searchInData (clip 0 (JArray (replicate 1000 JNull @ [JString (lit ''x'')]))) (lit ''x'') []
      = map clip_result (searchInData (JArray (replicate 1000 JNull @ [JString (lit ''x'')])) (lit ''x'') [])"
    and at51: "length ([] :: search_result list) \<ge> MAX_RESULTS \<or> 51 > MAX_DEPTH
      \<longrightarrow> search (lit ''x'') (JString (lit ''x'')) [] 51 [] = []"
    using C7_search_is_bounded [of "[]" 51 "lit ''x''" "JString (lit ''x'')" "[]" "[]" 0 "[]"
        "JArray (replicate 1000 JNull @ [JString (lit ''x'')])" "lit ''x''"]
    by blast+
  ultimately have wide:
    "searchInData (JArray (replicate 1000 JNull @ [JString (lit ''x'')])) (lit ''x'') [] = []"
    using clipped by simp
  from deep shallow narrow at50 wide at51 show ?thesis
    by (simp add: MAX_DEPTH_def)
qed

subsection \<open>The expansion policy\<close>

text \<open>
  C6: a node is expanded by default iff its level is below 1 in a large file and below 2
  otherwise. In the small document \<^verbatim>\<open>{"a": {"b": 1, "c": [1,2,3]}}\<close> the root and
  \<^verbatim>\<open>a\<close> are mounted expanded, and \<^verbatim>\<open>c\<close>, at level 2, is mounted collapsed.
\<close>

theorem C6_default_expansion:
  "(shouldAutoExpand True level \<longleftrightarrow> level < 1)
   \<and> (shouldAutoExpand False level \<longleftrightarrow> level < 2)
   \<and> isExpanded (initialState isLargeFile level data) = shouldAutoExpand isLargeFile level
   \<and> map (\<lambda>n. (nodePathString n, nodeLevel n, nodeExpanded n))
         (TreeNode False [] [] nested_example (lit ''root'') 0 [])
       = [(lit ''root'', 0, True), (lit ''root.a'', 1, True), (lit ''root.a.b'', 2, False),
          (lit ''root.a.c'', 2, False)]"
proof -
  have "map (\<lambda>n. (nodePathString n, nodeLevel n, nodeExpanded n))
         (TreeNode False [] [] nested_example (lit ''root'') 0 [])
       = [(lit ''root'', 0, True), (lit ''root.a'', 1, True), (lit ''root.a.b'', 2, False),
          (lit ''root.a.c'', 2, False)]"
    by code_simp
  then show ?thesis
    by (simp add: shouldAutoExpand_def initialState_def)
qed

theorem C6_default_expansion_witness:
  "shouldAutoExpand True 0 \<and> \<not> shouldAutoExpand True 1
   \<and> shouldAutoExpand False 1 \<and> \<not> shouldAutoExpand False 2"
  using C6_default_expansion [of 0] C6_default_expansion [of 1] C6_default_expansion [of 2]
  by simp

subsection \<open>The window of an array\<close>

lemma run_append:
  "run isLargeFile data (es @ es') s = run isLargeFile data es' (run isLargeFile data es s)"
  by (induction es arbitrary: s) simp_all

lemma run_snoc:
  "run isLargeFile data (es @ [e]) s = step isLargeFile data e (run isLargeFile data es s)"
  by (simp add: run_append)

lemma childEntries_array_expanded:
  "isExpanded s \<Longrightarrow>
   childEntries True (JArray xs) s
     = map (\<lambda>i. (index_segment i, xs ! i)) [0..<min (visibleCount s) (length xs)]"
  by (auto simp: childEntries_def isPrimitive_def enumerate_eq_zip Let_def min.commute
      intro!: nth_equalityI)

lemma loadMore_clicks_large_array:
  assumes "isExpanded s" "visibleCount s = 100" "100 \<le> length xs"
  shows "isExpanded (run True (JArray xs) (replicate n LoadMore) s)
         \<and> visibleCount (run True (JArray xs) (replicate n LoadMore) s)
             = min (100 * (n + 1)) (length xs)"
proof (induction n)
  case 0
  from assms show ?case by simp
next
  case (Suc n)
  have "replicate (Suc n) LoadMore = replicate n LoadMore @ [LoadMore]"
    by (simp add: replicate_append_same)
  with Suc show ?case
    by (auto simp: run_snoc loadMoreOffered_def loadMore_def)
qed

text \<open>
  C5: a root array of 2000 elements in a large file is mounted expanded and exposes its
  first 100 elements, with the load-more button and "1900 remaining"; each click on the
  button adds a page of 100 to the visible count, up to the length 2000; and the button of
  an expanded node is offered iff the visible count is below the length.
\<close>

theorem C5_large_array_window:
  assumes "length xs = 2000"
    and "s0 = afterMount True 0 (JArray xs) searchQuery searchMatch"
  shows "isExpanded s0 \<and> visibleCount s0 = 100
    \<and> childEntries True (JArray xs) s0 = map (\<lambda>i. (index_segment i, xs ! i)) [0..<100]
    \<and> loadMoreOffered True (JArray xs) s0 \<and> remaining (JArray xs) s0 = 1900
    \<and> visibleCount (loadMore (JArray xs) s) = min (visibleCount s + 100) 2000
    \<and> visibleCount (run True (JArray xs) (replicate n LoadMore) s0) = min (100 * (n + 1)) 2000
    \<and> (loadMoreOffered True (JArray xs) s
         \<longleftrightarrow> isExpanded s \<and> visibleCount s < array_length (JArray xs))"
proof -
  have s0: "isExpanded s0" "visibleCount s0 = 100"
    using assms(2)
    by (simp_all add: afterMount_def resetVisibleCountEffect_def autoExpandEffect_def
        initialState_def shouldAutoExpand_def)
  have entries: "childEntries True (JArray xs) s0 = map (\<lambda>i. (index_segment i, xs ! i)) [0..<100]"
    using s0 assms(1) by (simp add: childEntries_array_expanded)
  have clicks: "visibleCount (run True (JArray xs) (replicate n LoadMore) s0) = min (100 * (n + 1)) 2000"
    using loadMore_clicks_large_array [of s0 xs n] s0 assms(1) by simp
  show ?thesis
    using s0 entries clicks assms(1)
    by (auto simp: loadMoreOffered_def remaining_def loadMore_def)
qed

theorem C5_large_array_window_witness:
  "length (replicate 2000 JNull) = 2000
   \<and> visibleCount (afterMount True 0 (JArray (replicate 2000 JNull)) [] False) = 100
   \<and> remaining (JArray (replicate 2000 JNull))
         (afterMount True 0 (JArray (replicate 2000 JNull)) [] False) = 1900
   \<and> visibleCount (run True (JArray (replicate 2000 JNull)) (replicate 1 LoadMore)
         (afterMount True 0 (JArray (replicate 2000 JNull)) [] False)) = 200"
proof -
  have len: "length (replicate 2000 JNull) = 2000"
    by simp
  show ?thesis
    using len C5_large_array_window [where n = 1 and searchQuery = "[]" and searchMatch = False,
        OF len refl]
    by simp
qed

lemma childEntries_length: "length (childEntries isLargeFile data s) \<le> childCount data"
  by (cases data) (simp_all add: childEntries_def Let_def)

lemma window_ok_afterMount:
  "window_ok isLargeFile data (afterMount isLargeFile level data searchQuery searchMatch)"
  by (cases data)
    (auto simp: window_ok_def afterMount_def resetVisibleCountEffect_def autoExpandEffect_def
      initialState_def)

lemma window_ok_step:
  "window_ok isLargeFile data s \<Longrightarrow> window_ok isLargeFile data (step isLargeFile data e s)"
  by (cases e)
    (auto simp: window_ok_def resetVisibleCountEffect_def autoExpandEffect_def toggleExpanded_def
      loadMoreOffered_def loadMore_def Let_def)

lemma window_ok_run:
  "window_ok isLargeFile data s \<Longrightarrow> window_ok isLargeFile data (run isLargeFile data es s)"
  by (induction es arbitrary: s) (simp_all add: window_ok_step)

text \<open>
  C4, as amended: after any sequence of clicks and search changes, the children a node
  exposes are never more than it has; \<^verbatim>\<open>visibleCount\<close> is at most the length of the array,
  except for an array of fewer than 100 elements in a large file, where it stays at the
  page size 100; a click on load-more never lowers \<^verbatim>\<open>visibleCount\<close>, and where the button
  is offered the click raises it, to at most the length.
\<close>

theorem C4_window_never_exposes_more_than_children:
  assumes "s = run isLargeFile data events
                 (afterMount isLargeFile level data searchQuery searchMatch)"
  shows "length (childEntries isLargeFile data s) \<le> childCount data
    \<and> (visibleCount s \<le> array_length data
        \<or> (isLargeFile \<and> isArray data \<and> array_length data < 100 \<and> visibleCount s = 100))
    \<and> visibleCount s \<le> visibleCount (step isLargeFile data LoadMore s)
    \<and> (loadMoreOffered isLargeFile data s \<longrightarrow>
          visibleCount s < visibleCount (step isLargeFile data LoadMore s)
          \<and> visibleCount (step isLargeFile data LoadMore s) \<le> array_length data)
    \<and> (\<not> loadMoreOffered isLargeFile data s \<longrightarrow> step isLargeFile data LoadMore s = s)"
proof -
  have "window_ok isLargeFile data s"
    unfolding assms by (rule window_ok_run) (rule window_ok_afterMount)
  then have bound: "visibleCount s \<le> array_length data
        \<or> (isLargeFile \<and> isArray data \<and> array_length data < 100 \<and> visibleCount s = 100)"
    by (simp add: window_ok_def)
  have mono: "visibleCount s \<le> visibleCount (step isLargeFile data LoadMore s)"
    by (simp add: loadMoreOffered_def loadMore_def)
  have progress: "loadMoreOffered isLargeFile data s \<longrightarrow>
          visibleCount s < visibleCount (step isLargeFile data LoadMore s)
          \<and> visibleCount (step isLargeFile data LoadMore s) \<le> array_length data"
    by (simp add: loadMoreOffered_def loadMore_def)
  show ?thesis
    using childEntries_length bound mono progress by simp
qed

theorem C4_window_never_exposes_more_than_children_witness:
  "visibleCount (run True short_array_example [LoadMore, Toggle, LoadMore]
                  (afterMount True 0 short_array_example [] False)) = 100
   \<and> length (childEntries True short_array_example
         (run True short_array_example [LoadMore, Toggle, Toggle, LoadMore]
            (afterMount True 0 short_array_example [] False))) = 3
   \<and> loadMoreOffered True (JArray (replicate 250 JNull))
         (run True (JArray (replicate 250 JNull)) [LoadMore]
            (afterMount True 0 (JArray (replicate 250 JNull)) [] False))
   \<and> visibleCount (run True (JArray (replicate 250 JNull)) [LoadMore, LoadMore]
         (afterMount True 0 (JArray (replicate 250 JNull)) [] False)) = 250"
proof -
  have offered: "loadMoreOffered True (JArray (replicate 250 JNull))
         (run True (JArray (replicate 250 JNull)) [LoadMore]
            (afterMount True 0 (JArray (replicate 250 JNull)) [] False))"
    by (simp add: loadMoreOffered_def loadMore_def afterMount_def resetVisibleCountEffect_def
        autoExpandEffect_def initialState_def shouldAutoExpand_def)
  have short: "visibleCount (run True short_array_example [LoadMore, Toggle, LoadMore]
                  (afterMount True 0 short_array_example [] False)) = 100"
    "length (childEntries True short_array_example
         (run True short_array_example [LoadMore, Toggle, Toggle, LoadMore]
            (afterMount True 0 short_array_example [] False))) = 3"
    by (simp_all add: short_array_example_def loadMoreOffered_def loadMore_def afterMount_def
        resetVisibleCountEffect_def autoExpandEffect_def initialState_def shouldAutoExpand_def
        toggleExpanded_def childEntries_def isPrimitive_def)
  show ?thesis
    using offered short
      C4_window_never_exposes_more_than_children
        [OF refl, of True "JArray (replicate 250 JNull)" "[LoadMore]" 0 "[]" False]
    by (simp add: loadMoreOffered_def loadMore_def afterMount_def resetVisibleCountEffect_def
        autoExpandEffect_def initialState_def shouldAutoExpand_def)
qed

text \<open>
  C4, as stated, fails: in a large file an array of three elements is mounted with
  \<^verbatim>\<open>visibleCount\<close> 100.
\<close>

theorem C4_visibleCount_exceeds_short_array_counterexample:
  "\<not> visibleCount (afterMount True 0 short_array_example [] False)
       \<le> array_length short_array_example"
  by (simp add: short_array_example_def afterMount_def resetVisibleCountEffect_def
      autoExpandEffect_def initialState_def)

subsection \<open>Forced expansion\<close>

text \<open>
  What the code compares: a result's \<^verbatim>\<open>pathString\<close> with the \<^verbatim>\<open>pathString\<close> the node builds
  for itself.
\<close>

lemma isSearchMatch_iff:
  "isSearchMatch searchResults path name \<longleftrightarrow>
     (\<exists>m\<in>set searchResults.
        rpathString m = join (lit ''.'') (path @ [name])
        \<or> prefix (join (lit ''.'') (path @ [name]) @ lit ''.'') (rpathString m))"
  by (simp add: isSearchMatch_def Let_def list_ex_iff startsWith_def)

text \<open>
  C1, on the code: the results carry paths from the document (\<^verbatim>\<open>a.b.c\<close>), the nodes
  compare them with paths that start with the name of the root (\<^verbatim>\<open>root.a.b\<close>). In the small
  document \<^verbatim>\<open>{"a": {"b": {"c": 1}}}\<close> the query \<^verbatim>\<open>c\<close> matches the key at \<^verbatim>\<open>a.b.c\<close>, which starts
  with \<^verbatim>\<open>a.b\<close> and a dot; yet no node is a search match, and the node of \<^verbatim>\<open>a.b\<close>, at level 2,
  stays collapsed.
\<close>

theorem C1_match_below_collapsed_node_is_missed:
  "searchEffect deep_example (lit ''c'')
     = [\<lparr>rtype = Key, rpath = [lit ''a'', lit ''b'', lit ''c''], rkey = Some (lit ''c''), rvalue = JNumber 1,
         rpathString = lit ''a.b.c''\<rparr>]
   \<and> startsWith (lit ''a.b.c'') (lit ''a.b'' @ lit ''.'')
   \<and> App_tree False False deep_example (lit ''c'')
     = [\<lparr>nodePathString = lit ''root'', nodeLevel = 0, nodeSearchMatch = False, nodeExpanded = True\<rparr>,
        \<lparr>nodePathString = lit ''root.a'', nodeLevel = 1, nodeSearchMatch = False,
          nodeExpanded = True\<rparr>,
        \<lparr>nodePathString = lit ''root.a.b'', nodeLevel = 2, nodeSearchMatch = False,
          nodeExpanded = False\<rparr>]"
  by code_simp

text \<open>
  The same holds for every document whose root is an array, so for every JSONL file:
  all results start with an index, no node's path does, and every node keeps its default
  expansion whatever the query.
\<close>

lemma first_char_snoc: "first_char path = Some c \<Longrightarrow> first_char (path @ [seg]) = Some c"
  by (induction path rule: first_char.induct) simp_all

lemma first_char_index: "first_char ([] @ [index_segment i]) = Some 0x5B"
  by (simp add: index_segment_def lit_def)

lemma join_first_char: "first_char path = Some c \<Longrightarrow> \<exists>s. join (lit ''.'') path = c # s"
proof (induction path rule: first_char.induct)
  case (1 c' seg rest)
  then show ?case by (cases rest) simp_all
qed simp_all

lemma search_indexed:
  shows "first_char currentPath = Some 0x5B \<Longrightarrow> \<forall>m\<in>set results. indexed_result m
      \<Longrightarrow> \<forall>m\<in>set (search lowerQuery obj currentPath depth results). indexed_result m"
    and "currentPath = [] \<or> first_char currentPath = Some 0x5B
      \<Longrightarrow> \<forall>m\<in>set results. indexed_result m
      \<Longrightarrow> \<forall>m\<in>set (search_items lowerQuery items index currentPath depth results).
            indexed_result m"
    and "first_char currentPath = Some 0x5B \<Longrightarrow> \<forall>m\<in>set results. indexed_result m
      \<Longrightarrow> \<forall>m\<in>set (search_entries lowerQuery entries currentPath depth results).
            indexed_result m"
proof (induction lowerQuery obj currentPath depth results
    and lowerQuery items index currentPath depth results
    and lowerQuery entries currentPath depth results
    rule: search_search_items_search_entries.induct)
  case (1 lowerQuery obj currentPath depth results)
  show ?case
  proof (cases "length results \<ge> MAX_RESULTS \<or> depth > MAX_DEPTH")
    case True
    with "1.prems" show ?thesis by (simp add: search.simps)
  next
    case False
    show ?thesis
    proof (cases obj)
      case (JArray xs)
      with "1.IH"(1) [OF False JArray] "1.prems" False show ?thesis
        by (simp add: search.simps)
    next
      case (JObject kvs)
      with "1.IH"(2) [OF False JObject] "1.prems" False show ?thesis
        by (simp add: search.simps)
    qed (use "1.prems" False in \<open>auto simp: search.simps indexed_result_def\<close>)
  qed
next
  case (2 lowerQuery index currentPath depth results)
  then show ?case by simp
next
  case (3 lowerQuery item rest index currentPath depth results)
  from "3.prems"(1) have below: "first_char (currentPath @ [index_segment index]) = Some 0x5B"
    using first_char_index first_char_snoc by auto
  show ?case
  proof (cases "length results \<ge> MAX_RESULTS")
    case True
    with "3.IH"(2) [OF "3.prems"(1)] "3.prems"(2) show ?thesis by simp
  next
    case False
    from "3.IH"(1) [OF False below "3.prems"(2)] "3.IH"(2) [OF "3.prems"(1)] False
    show ?thesis by simp
  qed
next
  case (4 lowerQuery currentPath depth results)
  then show ?case by simp
next
  case (5 lowerQuery key val rest currentPath depth results)
  have below: "first_char (currentPath @ [key]) = Some 0x5B"
    using "5.prems"(1) by (rule first_char_snoc)
  show ?case
  proof (cases "length results \<ge> MAX_RESULTS")
    case True
    with "5.IH"(2) [OF "5.prems"(1)] "5.prems"(2) show ?thesis by simp
  next
    case False
    have "\<forall>m\<in>set (if includes_str (toLowerCase key) lowerQuery
                then results @ [\<lparr>rtype = Key, rpath = currentPath @ [key], rkey = Some key,
                                 rvalue = val, rpathString = join (lit ''.'') (currentPath @ [key])\<rparr>]
                else results). indexed_result m"
      using "5.prems"(2) below by (auto simp: indexed_result_def)
    with "5.IH"(1) [OF False below] "5.IH"(2) [OF "5.prems"(1)] False
    show ?thesis by simp
  qed
qed

lemma searchEffect_array_indexed:
  "\<forall>m\<in>set (searchEffect (JArray xs) searchQuery). indexed_result m"
proof -
  have "\<forall>m\<in>set (search_items (toLowerCase searchQuery) (take 1000 xs) 0 [] 0 []).
          indexed_result m"
    by (rule search_indexed(2)) simp_all
  then have "\<forall>m\<in>set (search (toLowerCase searchQuery) (JArray xs) [] 0 []). indexed_result m"
    by (simp add: search.simps)
  then show ?thesis
    by (auto simp: searchEffect_def searchInData_def dest: in_set_takeD)
qed

lemma isSearchMatch_never:
  assumes "\<forall>m\<in>set searchResults. indexed_result m"
    and "first_char (path @ [name]) = Some c" and "c \<noteq> 0x5B"
  shows "\<not> isSearchMatch searchResults path name"
proof -
  obtain s where node: "join (lit ''.'') (path @ [name]) = c # s"
    using join_first_char [OF assms(2)] by blast
  have "rpathString m \<noteq> c # s \<and> \<not> prefix ((c # s) @ lit ''.'') (rpathString m)"
    if "m \<in> set searchResults" for m
  proof -
    from that assms(1) have "first_char (rpath m) = Some 0x5B"
      and "rpathString m = join (lit ''.'') (rpath m)"
      by (simp_all add: indexed_result_def)
    then obtain t where "rpathString m = 0x5B # t"
      using join_first_char by metis
    with assms(3) show ?thesis by auto
  qed
  with node show ?thesis
    by (auto simp: isSearchMatch_def Let_def list_ex_iff startsWith_def)
qed

lemma TreeNode_never_matches:
  shows "\<forall>m\<in>set searchResults. indexed_result m \<Longrightarrow> c \<noteq> 0x5B
      \<Longrightarrow> first_char (path @ [name]) = Some c \<Longrightarrow>
      \<forall>n\<in>set (TreeNode isLargeFile searchQuery searchResults data name level path).
        \<not> nodeSearchMatch n \<and> nodeExpanded n = shouldAutoExpand isLargeFile (nodeLevel n)"
    and "\<forall>m\<in>set searchResults. indexed_result m \<Longrightarrow> c \<noteq> 0x5B
      \<Longrightarrow> first_char currentPath = Some c \<Longrightarrow>
      \<forall>n\<in>set (TreeNode_children isLargeFile searchQuery searchResults entries level currentPath).
        \<not> nodeSearchMatch n \<and> nodeExpanded n = shouldAutoExpand isLargeFile (nodeLevel n)"
proof (induction isLargeFile searchQuery searchResults data name level path
    and isLargeFile searchQuery searchResults entries level currentPath
    rule: TreeNode_TreeNode_children.induct)
  case (1 isLargeFile searchQuery searchResults data name level path)
  have no_match: "\<not> isSearchMatch searchResults path name"
    using isSearchMatch_never [OF "1.prems"(1) "1.prems"(3) "1.prems"(2)] .
  then have "isExpanded (afterMount isLargeFile level data searchQuery
                (isSearchMatch searchResults path name)) = shouldAutoExpand isLargeFile level"
    by (simp add: afterMount_def autoExpandEffect_def resetVisibleCountEffect_def initialState_def)
  with no_match "1.IH" [OF "1.prems"] show ?case
    by (simp add: TreeNode.simps)
next
  case (2 isLargeFile searchQuery searchResults level currentPath)
  show ?case by simp
next
  case (3 isLargeFile searchQuery searchResults childName childData rest level currentPath)
  have "first_char (currentPath @ [childName]) = Some c"
    using "3.prems"(3) by (rule first_char_snoc)
  with "3.IH" "3.prems" show ?case by auto
qed

lemma array_documents_never_match:
  "\<forall>n\<in>set (App_tree isJsonlFile isLargeFile (JArray xs) searchQuery).
     \<not> nodeSearchMatch n \<and> nodeExpanded n = shouldAutoExpand isLargeFile (nodeLevel n)"
proof (cases isJsonlFile)
  case True
  have "first_char ([] @ [lit ''jsonl_records'']) = Some 0x6A" by (simp add: lit_def)
  from TreeNode_never_matches(1) [OF searchEffect_array_indexed _ this] True show ?thesis
    by (simp add: App_tree_def)
next
  case False
  have "first_char ([] @ [lit ''root'']) = Some 0x72" by (simp add: lit_def)
  from TreeNode_never_matches(1) [OF searchEffect_array_indexed _ this] False show ?thesis
    by (simp add: App_tree_def)
qed

text \<open>
  C3, as amended: clearing the search query changes no node's state. The effect only ever
  sets \<^verbatim>\<open>isExpanded\<close> to true, in the state a click toggles, so a node that a match
  expanded is still expanded after the query is cleared.
\<close>

theorem C3_clearing_the_query_keeps_expansion:
  "step isLargeFile data (SearchChange [] searchMatch) s = s
   \<and> isExpanded (step isLargeFile data (SearchChange [] searchMatch)
         (step isLargeFile data (SearchChange (c # query) True) s))
   \<and> (isExpanded (step isLargeFile data (SearchChange query searchMatch) s)
        \<longleftrightarrow> isExpanded s \<or> (query \<noteq> [] \<and> searchMatch))"
  by (auto simp: autoExpandEffect_def resetVisibleCountEffect_def Let_def)

text \<open>
  C3, as stated, fails: in \<open>shadowed_example\<close> the node \<^verbatim>\<open>root.x.y\<close>, at level 2 of a small
  file, is mounted collapsed; the query \<^verbatim>\<open>needle\<close> expands it; after the query is cleared it
  is still expanded.
\<close>

theorem C3_forced_expansion_survives_clearing_counterexample:
  "\<not> isExpanded (afterMount False 2 (JObject [(lit ''other'', JNumber 2)]) []
         (isSearchMatch [] [lit ''root'', lit ''x''] (lit ''y'')))
   \<and> isExpanded
        (step False (JObject [(lit ''other'', JNumber 2)])
           (SearchChange [] (isSearchMatch [] [lit ''root'', lit ''x''] (lit ''y'')))
           (step False (JObject [(lit ''other'', JNumber 2)])
              (SearchChange (lit ''needle'')
                 (isSearchMatch (searchInData shadowed_example (lit ''needle'') []) [lit ''root'', lit ''x''] (lit ''y'')))
              (afterMount False 2 (JObject [(lit ''other'', JNumber 2)]) []
                 (isSearchMatch [] [lit ''root'', lit ''x''] (lit ''y'')))))"
  by code_simp

subsection \<open>Loading JSON Lines\<close>

lemma parseLines_split:
  "parseLines JSON_parse lines index (parsedLines, errors) = (ps, es) \<Longrightarrow>
     ps = parsedLines @ parsed_records JSON_parse lines
     \<and> length es = length errors + length (failed_lines JSON_parse lines)"
proof (induction lines arbitrary: index parsedLines errors)
  case Nil
  then show ?case by (simp add: parsed_records_def failed_lines_def List.map_filter_simps)
next
  case (Cons line rest)
  show ?case
  proof (cases "JSON_parse (trim line)")
    case (Inl message)
    with Cons.prems Cons.IH [of "index + 1" parsedLines "errors @ [lit ''Line '' @ digits (index + 1) @ lit '': '' @ message]"]
    show ?thesis
      by (simp add: parsed_records_def failed_lines_def List.map_filter_simps)
  next
    case (Inr parsed)
    with Cons.prems Cons.IH [of "index + 1" "parsedLines @ [parsed]" errors]
    show ?thesis
      by (simp add: parsed_records_def failed_lines_def List.map_filter_simps)
  qed
qed

text \<open>
  C8: for a file whose name ends in \<^verbatim>\<open>.jsonl\<close>, every non-blank line is parsed on its own.
  The lines that parse become the loaded array, in their order; the lines that fail are
  left out and counted in one message. Only when a line fails and none parses is nothing
  loaded. With three lines of which the second fails, the array of the two records is
  loaded and the message counts one line.
\<close>

theorem C8_jsonl_skips_invalid_lines:
  assumes "endsWith (toLowerCase fileName) (lit ''.jsonl'')"
    and "lines = nonblank_lines content"
    and "good = parsed_records JSON_parse lines"
    and "bad = failed_lines JSON_parse lines"
  shows "setJsonData (processFile JSON_parse fileName content)
           = (if bad \<noteq> [] \<and> good = [] then JNull else JArray good)
    \<and> (setError (processFile JSON_parse fileName content) = [] \<longleftrightarrow> bad = [])
    \<and> (bad \<noteq> [] \<and> good \<noteq> [] \<longrightarrow>
          prefix (lit ''JSONL file contains '' @ digits (length bad) @ lit '' invalid lines (skipped).'')
            (setError (processFile JSON_parse fileName content)))
    \<and> length good + length bad = length lines
    \<and> (\<forall>l1 l2 l3 v1 v3 message.
          lines = [l1, l2, l3] \<and> JSON_parse (trim l1) = Inr v1
          \<and> JSON_parse (trim l2) = Inl message \<and> JSON_parse (trim l3) = Inr v3
          \<longrightarrow> setJsonData (processFile JSON_parse fileName content) = JArray [v1, v3]
              \<and> prefix (lit ''JSONL file contains 1 invalid lines (skipped).'')
                   (setError (processFile JSON_parse fileName content)))"
proof -
  obtain ps es where run: "parseLines JSON_parse lines 0 ([], []) = (ps, es)"
    by (cases "parseLines JSON_parse lines 0 ([], [])")
  from parseLines_split [OF run] assms(3,4) have ps: "ps = good" and es: "length es = length bad"
    by simp_all
  from es have nil: "es = [] \<longleftrightarrow> bad = []"
    by (metis length_0_conv)
  have jsonl: "processFile JSON_parse fileName content = processJsonl JSON_parse content"
    using assms(1) by (simp add: processFile_def)
  have data: "setJsonData (processFile JSON_parse fileName content)
           = (if bad \<noteq> [] \<and> good = [] then JNull else JArray good)"
    using run ps es nil assms(2)
    by (simp add: jsonl processJsonl_def nonblank_lines_def Let_def lit_def)
  have err: "setError (processFile JSON_parse fileName content) = [] \<longleftrightarrow> bad = []"
    using run ps es nil assms(2)
    by (simp add: jsonl processJsonl_def nonblank_lines_def Let_def lit_def)
  have msg: "bad \<noteq> [] \<and> good \<noteq> [] \<longrightarrow>
          prefix (lit ''JSONL file contains '' @ digits (length bad) @ lit '' invalid lines (skipped).'')
            (setError (processFile JSON_parse fileName content))"
    using run ps es nil assms(2)
    by (simp add: jsonl processJsonl_def nonblank_lines_def Let_def lit_def)
  have count: "length good + length bad = length lines"
    unfolding assms(3,4) parsed_records_def failed_lines_def
    by (induction lines) (auto simp: List.map_filter_simps split: sum.splits)
  have three: "setJsonData (processFile JSON_parse fileName content) = JArray [v1, v3]
              \<and> prefix (lit ''JSONL file contains 1 invalid lines (skipped).'')
                   (setError (processFile JSON_parse fileName content))"
    if "lines = [l1, l2, l3]" "JSON_parse (trim l1) = Inr v1"
      "JSON_parse (trim l2) = Inl message" "JSON_parse (trim l3) = Inr v3"
    for l1 l2 l3 v1 v3 message
  proof -
    from that assms(3,4) have "good = [v1, v3]" "bad = [l2]"
      by (simp_all add: parsed_records_def failed_lines_def List.map_filter_simps)
    with data msg show ?thesis by (simp add: lit_def)
  qed
  from data err msg count three show ?thesis
    by blast
qed

theorem C8_jsonl_skips_invalid_lines_witness:
  "endsWith (toLowerCase (lit ''records.JSONL'')) (lit ''.jsonl'')
   \<and> nonblank_lines example_jsonl = [lit ''{}'', lit ''{oops'' @ [0x0D], lit '' [1] '']
   \<and> setJsonData (processFile example_parse (lit ''records.JSONL'') example_jsonl)
       = JArray [JObject [], JArray [JNumber 1]]
   \<and> prefix (lit ''JSONL file contains 1 invalid lines (skipped).'')
        (setError (processFile example_parse (lit ''records.JSONL'') example_jsonl))"
proof -
  have lines: "nonblank_lines example_jsonl = [lit ''{}'', lit ''{oops'' @ [0x0D], lit '' [1] '']"
    by code_simp
  have first: "example_parse (trim (lit ''{}'')) = Inr (JObject [])"
    by code_simp
  have second: "example_parse (trim (lit ''{oops'' @ [0x0D])) = Inl (lit ''Unexpected token'')"
    by code_simp
  have third: "example_parse (trim (lit '' [1] '')) = Inr (JArray [JNumber 1])"
    by code_simp
  have name: "endsWith (toLowerCase (lit ''records.JSONL'')) (lit ''.jsonl'')"
    by code_simp
  note all = C8_jsonl_skips_invalid_lines [OF name refl refl refl, of example_parse example_jsonl]
  from all have "\<forall>l1 l2 l3 v1 v3 message.
          nonblank_lines example_jsonl = [l1, l2, l3] \<and> example_parse (trim l1) = Inr v1
          \<and> example_parse (trim l2) = Inl message \<and> example_parse (trim l3) = Inr v3
          \<longrightarrow> setJsonData (processFile example_parse (lit ''records.JSONL'') example_jsonl) = JArray [v1, v3]
              \<and> prefix (lit ''JSONL file contains 1 invalid lines (skipped).'')
                   (setError (processFile example_parse (lit ''records.JSONL'') example_jsonl))"
    by (elim conjE)
  with name lines first second third show ?thesis
    by blast
qed

end
